theory Spec2Isabelle
  imports Complex_Main "HOL-Library.Sublist"
begin

section \<open>Python text primitives\<close>

text \<open>
  Strings are lists of 8-bit characters read as code points \<open>0..255\<close>. The controller's
  wire is ASCII, so decoding received bytes is the identity on the modelled range.
  \<open>isspace\<close> is Python's \<^verbatim>\<open>str.isspace\<close> on that range; it is also what the
  regular-expression class \<^verbatim>\<open>\s\<close> matches on a \<^verbatim>\<open>str\<close> pattern.
\<close>

definition isspace :: "char \<Rightarrow> bool" where
  "isspace c = ((of_char c :: nat) \<in> {9, 10, 11, 12, 13, 28, 29, 30, 31, 32, 133, 160})"

definition strip :: "string \<Rightarrow> string" where
  "strip s = rev (dropWhile isspace (rev (dropWhile isspace s)))"

definition lower_char :: "char \<Rightarrow> char" where
  "lower_char c =
     (let n = (of_char c :: nat)
      in if (65 \<le> n \<and> n \<le> 90) \<or> (192 \<le> n \<and> n \<le> 222 \<and> n \<noteq> 215)
         then char_of (n + 32) else c)"

definition lower :: "string \<Rightarrow> string" where
  "lower s = map lower_char s"

definition startswith :: "string \<Rightarrow> string \<Rightarrow> bool" where
  "startswith s p = prefix p s"

definition endswith :: "string \<Rightarrow> string \<Rightarrow> bool" where
  "endswith s p = suffix p s"

text \<open>\<^verbatim>\<open>s.split(c, 1)[0]\<close>: the text before the first occurrence of a one-character separator.\<close>

definition split_head :: "char \<Rightarrow> string \<Rightarrow> string" where
  "split_head c s = takeWhile (\<lambda>x. x \<noteq> c) s"


section \<open>The environment: serial channel, clock, collaborators\<close>

text \<open>
  Everything outside the program is one record. \<open>rx\<close> holds the characters the motion
  controller will still deliver. \<open>clock\<close> is the wall clock as an oracle: the \<open>n\<close>-th reading
  of \<^verbatim>\<open>time.time()\<close> made by the idle wait returns \<open>clock n\<close>, and \<open>ticks\<close> counts the
  readings made so far; nothing is assumed about how time advances. \<open>trace\<close> records, in
  order, every byte string written to the serial port, every line handed back by
  \<^verbatim>\<open>_readline\<close>, every sleep and every call on the projector and the display.
  \<open>faulty n\<close> says that a projector or display call issued when the trace has length \<open>n\<close>
  raises (the wrappers raise \<^verbatim>\<open>RuntimeError\<close> when the driver is missing or the display
  is not initialised).
\<close>

datatype event =
    SerialWrite string
  | SerialLine string
  | TimeSleep rat
  | ProjectorOff
  | ProjectorOn
  | DisplayBlack
  | DisplayShow string
  | DisplaySleep rat

record world =
  rx :: string
  clock :: "nat \<Rightarrow> rat"
  ticks :: nat
  faulty :: "nat \<Rightarrow> bool"
  trace :: "event list"

datatype error =
    ReadTimeout
  | GrblRejected string string
  | GrblAlarm string
  | IdleTimeout string
  | NoImageSelected
  | ValueError string
  | DeviceFault event

definition emit :: "event \<Rightarrow> world \<Rightarrow> world" where
  "emit ev w = w\<lparr>trace := trace w @ [ev]\<rparr>"

definition time_time :: "world \<Rightarrow> rat \<times> world" where
  "time_time w = (clock w (ticks w), w\<lparr>ticks := Suc (ticks w)\<rparr>)"

definition time_sleep :: "rat \<Rightarrow> world \<Rightarrow> world" where
  "time_sleep d w = emit (TimeSleep d) w"

section \<open>grbl\_client.py\<close>

record GrblStatus =
  raw :: string
  state :: "string option"

abbreviation LF :: char where "LF \<equiv> CHR 0x0A"
abbreviation CR :: char where "CR \<equiv> CHR 0x0D"

text \<open>
  \<^verbatim>\<open>GrblClient._readline\<close>: characters are taken one at a time; a line terminator ends the
  line when the buffer is non-empty and is skipped otherwise. The loop's deadline is modelled
  at the end of the input: while a character is available the deadline has not passed, and
  when the controller sends nothing more the deadline passes and \<^verbatim>\<open>TimeoutError\<close> is raised
  (whatever was buffered is lost).
\<close>

fun readline_loop :: "string \<Rightarrow> string \<Rightarrow> (string \<times> string) option" where
  "readline_loop buf [] = None"
| "readline_loop buf (ch # rest) =
     (if ch = LF \<or> ch = CR
      then (if buf \<noteq> [] then Some (buf, rest) else readline_loop buf rest)
      else readline_loop (buf @ [ch]) rest)"

definition readline :: "rat \<Rightarrow> world \<Rightarrow> (error + string) \<times> world" where
  "readline timeout_s w =
     (case readline_loop [] (rx w) of
        None \<Rightarrow> (Inl ReadTimeout, w\<lparr>rx := []\<rparr>)
      | Some (buf, rest) \<Rightarrow> (Inr (strip buf), emit (SerialLine (strip buf)) (w\<lparr>rx := rest\<rparr>)))"

definition write_line :: "string \<Rightarrow> world \<Rightarrow> world" where
  "write_line line w = emit (SerialWrite (strip line @ [LF])) w"

text \<open>
  \<^verbatim>\<open>GrblClient.send_line_wait_ok\<close>. The reading loop recurses on the environment; every
  line read consumes at least one character of \<open>rx\<close>.
\<close>

function send_loop :: "string \<Rightarrow> world \<Rightarrow> (error + string) \<times> world" where
  "send_loop clean w =
     (case readline 10 w of
        (Inl e, w') \<Rightarrow> (Inl e, w')
      | (Inr resp, w') \<Rightarrow>
          (let low = lower resp
           in if low = ''ok'' then (Inr resp, w')
              else if startswith low ''error'' \<or> startswith low ''alarm''
              then (Inl (GrblRejected resp clean), w')
              else send_loop clean w'))"
  by pat_completeness auto

lemma readline_loop_shorter:
  "readline_loop buf xs = Some (b, rest) \<Longrightarrow> length rest < length xs"
  by (induction buf xs rule: readline_loop.induct) (auto split: if_splits)

lemma readline_consumes:
  "readline t w = (Inr resp, w') \<Longrightarrow> length (rx w') < length (rx w)"
  by (auto simp: readline_def emit_def split: option.splits dest: readline_loop_shorter)

termination send_loop
  by (relation "measure (\<lambda>(clean, w). length (rx w))")
     (auto dest: readline_consumes [OF sym])

declare send_loop.simps [simp del]

definition send_line_wait_ok :: "string \<Rightarrow> world \<Rightarrow> (error + string) \<times> world" where
  "send_line_wait_ok line w =
     (let clean = strip line
      in if clean = [] then (Inr [], w)
         else send_loop clean (write_line clean w))"

text \<open>
  \<^verbatim>\<open>GrblClient.get_status\<close>. The \<^verbatim>\<open>try\<close> around the split cannot fire: slicing and
  splitting a string never raise.
\<close>

definition parse_state :: "string \<Rightarrow> string option" where
  "parse_state line =
     (if startswith line ''<'' \<and> CHR ''|'' \<in> set line
      then Some (split_head (CHR ''|'') (drop 1 line))
      else None)"

definition get_status :: "world \<Rightarrow> (error + GrblStatus) \<times> world" where
  "get_status w =
     (case readline 2 (write_line ''?'' w) of
        (Inl e, w') \<Rightarrow> (Inl e, w')
      | (Inr line, w') \<Rightarrow> (Inr \<lparr>raw = line, state = parse_state line\<rparr>, w'))"

lemma get_status_consumes:
  "get_status w = (Inr st, w') \<Longrightarrow> length (rx w') < length (rx w)"
  by (auto simp: get_status_def write_line_def emit_def
      split: prod.splits sum.splits dest: readline_consumes)

text \<open>\<^verbatim>\<open>GrblClient.wait_until_idle\<close>: the loop body, then the entry that reads \<open>t0\<close>.\<close>

function wait_loop :: "rat \<Rightarrow> rat \<Rightarrow> rat \<Rightarrow> world \<Rightarrow> (error + unit) \<times> world" where
  "wait_loop t0 timeout_s poll_s w =
     (case get_status w of
        (Inl e, w1) \<Rightarrow> (Inl e, w1)
      | (Inr st, w1) \<Rightarrow>
          if state st = Some ''Idle'' then (Inr (), w1)
          else if state st = Some ''Alarm'' then (Inl (GrblAlarm (raw st)), w1)
          else (case time_time w1 of
                  (now, w2) \<Rightarrow>
                    if now - t0 > timeout_s then (Inl (IdleTimeout (raw st)), w2)
                    else wait_loop t0 timeout_s poll_s (time_sleep poll_s w2)))"
  by pat_completeness auto
termination wait_loop
  by (relation "measure (\<lambda>(t0, timeout_s, poll_s, w). length (rx w))")
     (auto simp: time_time_def time_sleep_def emit_def dest: get_status_consumes [OF sym])

declare wait_loop.simps [simp del]

definition wait_until_idle :: "rat \<Rightarrow> rat \<Rightarrow> world \<Rightarrow> (error + unit) \<times> world" where
  "wait_until_idle timeout_s poll_s w =
     (case time_time w of (t0, w0) \<Rightarrow> wait_loop t0 timeout_s poll_s w0)"

section \<open>projector\_control.py and display\_control.py at their interface\<close>

text \<open>
  The executor drives the projector and the display through five methods. Each call is
  recorded in the trace; \<open>off\<close>, \<open>on\<close>, \<open>black\<close> and \<open>show\<close> reach a driver that may raise,
  \<^verbatim>\<open>sleep_with_pump\<close> only sleeps.
\<close>

definition device_call :: "event \<Rightarrow> world \<Rightarrow> (error + unit) \<times> world" where
  "device_call ev w =
     (if faulty w (length (trace w)) then (Inl (DeviceFault ev), emit ev w)
      else (Inr (), emit ev w))"

definition projector_off :: "world \<Rightarrow> (error + unit) \<times> world" where
  "projector_off w = device_call ProjectorOff w"

definition projector_on :: "world \<Rightarrow> (error + unit) \<times> world" where
  "projector_on w = device_call ProjectorOn w"

definition display_black :: "world \<Rightarrow> (error + unit) \<times> world" where
  "display_black w = device_call DisplayBlack w"

definition display_show :: "string \<Rightarrow> world \<Rightarrow> (error + unit) \<times> world" where
  "display_show image_path w = device_call (DisplayShow image_path) w"

definition sleep_with_pump :: "rat \<Rightarrow> world \<Rightarrow> (error + unit) \<times> world" where
  "sleep_with_pump seconds w = (Inr (), emit (DisplaySleep seconds) w)"

text \<open>Statement sequencing: the next statement runs only if the previous one did not raise.\<close>

definition then_do ::
  "(error + unit) \<times> world \<Rightarrow> (world \<Rightarrow> (error + unit) \<times> world) \<Rightarrow> (error + unit) \<times> world" where
  "then_do r f = (case r of (Inl e, w) \<Rightarrow> (Inl e, w) | (Inr u, w) \<Rightarrow> f w)"

section \<open>gcode\_executor.py\<close>

subsection \<open>The three patterns\<close>

text \<open>
  Each pattern is anchored at the start by \<^verbatim>\<open>re.match\<close> and at the end by \<^verbatim>\<open>\s*$\<close>. The
  character classes that follow one another are disjoint, so the greedy match is the only
  possible one and the matcher below needs no backtracking. A match returns group 1.
\<close>

definition ci_prefix :: "string \<Rightarrow> string \<Rightarrow> string option" where
  "ci_prefix p s =
     (if lower (take (length p) s) = lower p then Some (drop (length p) s) else None)"

definition ws_plus :: "string \<Rightarrow> string option" where
  "ws_plus s = (case s of [] \<Rightarrow> None | c # cs \<Rightarrow> if isspace c then Some (dropWhile isspace s) else None)"

definition opt_quote :: "string \<Rightarrow> string" where
  "opt_quote s = (case s of [] \<Rightarrow> [] | c # cs \<Rightarrow> if c = CHR 0x22 then cs else s)"

definition name_char :: "char \<Rightarrow> bool" where
  "name_char c = (c \<noteq> CHR 0x22 \<and> \<not> isspace c)"

definition num_char :: "char \<Rightarrow> bool" where
  "num_char c = (c \<in> set ''0123456789.'')"

definition group_to_end :: "(char \<Rightarrow> bool) \<Rightarrow> bool \<Rightarrow> string \<Rightarrow> string option" where
  "group_to_end cls quoted s =
     (let g = takeWhile cls s; r = dropWhile cls s
      in if g = [] then None
         else if list_all isspace (if quoted then opt_quote r else r) then Some g
         else None)"

definition re_M6054 :: "string \<Rightarrow> string option" where
  "re_M6054 line =
     (case ci_prefix ''M6054'' line of None \<Rightarrow> None
      | Some r1 \<Rightarrow>
          (case ws_plus r1 of None \<Rightarrow> None
           | Some r2 \<Rightarrow> group_to_end name_char True (opt_quote r2)))"

definition re_M106 :: "string \<Rightarrow> string option" where
  "re_M106 line =
     (case ci_prefix ''M106'' line of None \<Rightarrow> None
      | Some r1 \<Rightarrow>
          (case ws_plus r1 of None \<Rightarrow> None
           | Some r2 \<Rightarrow>
               (case ci_prefix ''S'' r2 of None \<Rightarrow> None
                | Some r3 \<Rightarrow> group_to_end num_char False r3)))"

definition re_G4P :: "string \<Rightarrow> string option" where
  "re_G4P line =
     (case ci_prefix ''G4'' line of None \<Rightarrow> None
      | Some r1 \<Rightarrow>
          (case ws_plus r1 of None \<Rightarrow> None
           | Some r2 \<Rightarrow>
               (case ci_prefix ''P'' r2 of None \<Rightarrow> None
                | Some r3 \<Rightarrow> group_to_end num_char False r3)))"

text \<open>
  \<^verbatim>\<open>float(g)\<close> for a group of digits and dots: a decimal literal has at most one dot and
  at least one digit, anything else raises \<^verbatim>\<open>ValueError\<close>. The value is kept exact;
  rounding to a double is monotone and \<open>1\<close> is representable, so the comparison with
  \<open>1.0\<close> is the same.
\<close>

definition digit_val :: "char \<Rightarrow> nat" where
  "digit_val c = of_char c - 48"

definition digits_val :: "string \<Rightarrow> nat" where
  "digits_val ds = foldl (\<lambda>a c. 10 * a + digit_val c) 0 ds"

definition py_float :: "string \<Rightarrow> rat option" where
  "py_float g =
     (let ip = takeWhile (\<lambda>c. c \<noteq> CHR ''.'') g;
          fp = drop 1 (dropWhile (\<lambda>c. c \<noteq> CHR ''.'') g)
      in if CHR ''.'' \<in> set fp \<or> ip @ fp = [] then None
         else Some (of_nat (digits_val ip) + of_nat (digits_val fp) / 10 ^ length fp))"

text \<open>\<^verbatim>\<open>os.path.join\<close> on POSIX, for two components.\<close>

definition path_join :: "string \<Rightarrow> string \<Rightarrow> string" where
  "path_join a b =
     (if startswith b ''/'' then b
      else if a = [] \<or> endswith a ''/'' then a @ b
      else a @ ''/'' @ b)"

subsection \<open>RunStats and the executor object\<close>

record RunStats =
  gcode_lines_total :: int
  gcode_lines_sent_grbl :: int
  dwell_count :: int
  exposure_on_count :: int
  exposure_off_count :: int
  image_select_count :: int

definition RunStats_new :: RunStats where
  "RunStats_new =
     \<lparr>gcode_lines_total = 0, gcode_lines_sent_grbl = 0, dwell_count = 0,
      exposure_on_count = 0, exposure_off_count = 0, image_select_count = 0\<rparr>"

text \<open>
  The attributes of \<^verbatim>\<open>GcodeExecutor\<close>. \<open>exposure_active\<close> is \<^verbatim>\<open>_exposure_active\<close>; \<open>env\<close>
  stands for the three collaborator objects \<^verbatim>\<open>grbl\<close>, \<^verbatim>\<open>display\<close>, \<^verbatim>\<open>projector\<close> and what
  lies behind them. Log output (\<^verbatim>\<open>print\<close>) is not modelled.
\<close>

record GcodeExecutor =
  image_dir :: string
  dry_run :: bool
  idle_timeout_s :: rat
  idle_poll_s :: rat
  event_pump_hz :: int
  post_exposure_black_delay_s :: rat
  exposure_active :: bool
  pre_exposure_black_delay_s :: rat
  current_image :: "string option"
  stats :: RunStats
  env :: world

text \<open>\<^verbatim>\<open>GcodeExecutor.__init__\<close>\<close>

definition GcodeExecutor_init ::
  "world \<Rightarrow> string \<Rightarrow> bool \<Rightarrow> rat \<Rightarrow> rat \<Rightarrow> int \<Rightarrow> rat \<Rightarrow> rat \<Rightarrow> GcodeExecutor" where
  "GcodeExecutor_init devices dir dry idle_timeout idle_poll pump_hz post_delay pre_delay =
     \<lparr>image_dir = dir, dry_run = dry, idle_timeout_s = idle_timeout, idle_poll_s = idle_poll,
      event_pump_hz = pump_hz, post_exposure_black_delay_s = post_delay,
      exposure_active = False, pre_exposure_black_delay_s = pre_delay,
      current_image = None, stats = RunStats_new, env = devices\<rparr>"

definition strip_comment :: "string \<Rightarrow> string" where
  "strip_comment line =
     strip (if CHR '';'' \<in> set line then split_head (CHR '';'') line else line)"

definition handle_m6054 :: "string \<Rightarrow> GcodeExecutor \<Rightarrow> bool \<times> GcodeExecutor" where
  "handle_m6054 line ex =
     (case re_M6054 line of
        None \<Rightarrow> (False, ex)
      | Some g \<Rightarrow>
          (let name = (if \<not> endswith (lower g) ''.png'' \<and> \<not> endswith (lower g) ''.bmp''
                          \<and> \<not> endswith (lower g) ''.jpg'' \<and> \<not> endswith (lower g) ''.jpeg''
                       then g @ ''.png'' else g)
           in (True, ex\<lparr>current_image := Some (path_join (image_dir ex) name),
                         stats := (stats ex)\<lparr>image_select_count :=
                                    image_select_count (stats ex) + 1\<rparr>\<rparr>)))"

text \<open>
  \<^verbatim>\<open>GcodeExecutor._handle_m106\<close>. The text after \<^verbatim>\<open>return True\<close> in the first branch is a
  string literal that is never executed; nothing in the executed code assigns \<^verbatim>\<open>True\<close> to
  \<^verbatim>\<open>_exposure_active\<close>.
\<close>

definition handle_m106 :: "string \<Rightarrow> GcodeExecutor \<Rightarrow> (error + bool) \<times> GcodeExecutor" where
  "handle_m106 line ex =
     (case re_M106 line of
        None \<Rightarrow> (Inr False, ex)
      | Some g \<Rightarrow>
          (case py_float g of
             None \<Rightarrow> (Inl (ValueError g), ex)
           | Some s_val \<Rightarrow>
               if s_val \<ge> 1 then
                 (let ex1 = ex\<lparr>stats := (stats ex)\<lparr>exposure_on_count :=
                                    exposure_on_count (stats ex) + 1\<rparr>\<rparr>
                  in case current_image ex1 of
                       None \<Rightarrow> (Inl NoImageSelected, ex1)
                     | Some img \<Rightarrow>
                         if \<not> dry_run ex1 then
                           (case then_do (wait_until_idle (idle_timeout_s ex1) (idle_poll_s ex1) (env ex1)) (\<lambda>w.
                                 then_do (projector_off w) (\<lambda>w.
                                 then_do (display_black w) (\<lambda>w.
                                 then_do (if pre_exposure_black_delay_s ex1 > 0
                                          then sleep_with_pump (pre_exposure_black_delay_s ex1) w
                                          else (Inr (), w)) (\<lambda>w.
                                 then_do (display_show img w) (\<lambda>w.
                                 projector_on w))))) of
                              (Inl e, w) \<Rightarrow> (Inl e, ex1\<lparr>env := w\<rparr>)
                            | (Inr u, w) \<Rightarrow> (Inr True, ex1\<lparr>env := w\<rparr>))
                         else (Inr True, ex1))
               else
                 (let ex1 = ex\<lparr>stats := (stats ex)\<lparr>exposure_off_count :=
                                    exposure_off_count (stats ex) + 1\<rparr>\<rparr>;
                      was_active = exposure_active ex1;
                      ex2 = ex1\<lparr>exposure_active := False\<rparr>
                  in if \<not> dry_run ex2 then
                       (case then_do (projector_off (env ex2)) (\<lambda>w.
                             then_do (display_black w) (\<lambda>w.
                             if was_active \<and> post_exposure_black_delay_s ex2 > 0
                             then sleep_with_pump (post_exposure_black_delay_s ex2) w
                             else (Inr (), w))) of
                          (Inl e, w) \<Rightarrow> (Inl e, ex2\<lparr>env := w\<rparr>)
                        | (Inr u, w) \<Rightarrow> (Inr True, ex2\<lparr>env := w\<rparr>))
                     else (Inr True, ex2))))"

definition handle_g4 :: "string \<Rightarrow> GcodeExecutor \<Rightarrow> (error + bool) \<times> GcodeExecutor" where
  "handle_g4 line ex =
     (case re_G4P line of
        None \<Rightarrow> (Inr False, ex)
      | Some g \<Rightarrow>
          (case py_float g of
             None \<Rightarrow> (Inl (ValueError g), ex)
           | Some ms \<Rightarrow>
               (let sec = ms / 1000;
                    ex1 = ex\<lparr>stats := (stats ex)\<lparr>dwell_count := dwell_count (stats ex) + 1\<rparr>\<rparr>
                in if \<not> dry_run ex1 then
                     (case sleep_with_pump sec (env ex1) of
                        (Inl e, w) \<Rightarrow> (Inl e, ex1\<lparr>env := w\<rparr>)
                      | (Inr u, w) \<Rightarrow> (Inr True, ex1\<lparr>env := w\<rparr>))
                   else (Inr True, ex1))))"

definition send_to_grbl :: "string \<Rightarrow> GcodeExecutor \<Rightarrow> (error + unit) \<times> GcodeExecutor" where
  "send_to_grbl line ex =
     (if dry_run ex then (Inr (), ex)
      else (case send_line_wait_ok line (env ex) of
              (Inl e, w) \<Rightarrow> (Inl e, ex\<lparr>env := w\<rparr>)
            | (Inr resp, w) \<Rightarrow>
                (Inr (), ex\<lparr>env := w,
                             stats := (stats ex)\<lparr>gcode_lines_sent_grbl :=
                                        gcode_lines_sent_grbl (stats ex) + 1\<rparr>\<rparr>)))"

text \<open>
  \<^verbatim>\<open>GcodeExecutor.run_file\<close>. The program is the list of raw lines the file iterator yields.
  \<open>run_start\<close> is the assignment that opens the method, \<open>run_lines\<close> the loop.
\<close>

definition run_start :: "GcodeExecutor \<Rightarrow> GcodeExecutor" where
  "run_start ex = ex\<lparr>stats := RunStats_new\<rparr>"

fun run_lines :: "string list \<Rightarrow> GcodeExecutor \<Rightarrow> (error + unit) \<times> GcodeExecutor" where
  "run_lines [] ex = (Inr (), ex)"
| "run_lines (raw_line # rest) ex =
     (let ex1 = ex\<lparr>stats := (stats ex)\<lparr>gcode_lines_total := gcode_lines_total (stats ex) + 1\<rparr>\<rparr>;
          line = strip_comment raw_line
      in if line = [] then run_lines rest ex1
         else (case handle_m6054 line ex1 of
                 (True, ex2) \<Rightarrow> run_lines rest ex2
               | (False, ex2) \<Rightarrow>
                   (case handle_m106 line ex2 of
                      (Inl e, ex3) \<Rightarrow> (Inl e, ex3)
                    | (Inr True, ex3) \<Rightarrow> run_lines rest ex3
                    | (Inr False, ex3) \<Rightarrow>
                        (case handle_g4 line ex3 of
                           (Inl e, ex4) \<Rightarrow> (Inl e, ex4)
                         | (Inr True, ex4) \<Rightarrow> run_lines rest ex4
                         | (Inr False, ex4) \<Rightarrow>
                             (case send_to_grbl line ex4 of
                                (Inl e, ex5) \<Rightarrow> (Inl e, ex5)
                              | (Inr u, ex5) \<Rightarrow> run_lines rest ex5)))))"

definition run_file :: "string list \<Rightarrow> GcodeExecutor \<Rightarrow> (error + RunStats) \<times> GcodeExecutor" where
  "run_file program ex =
     (case run_lines program (run_start ex) of
        (Inl e, ex') \<Rightarrow> (Inl e, ex')
      | (Inr u, ex') \<Rightarrow> (Inr (stats ex'), ex'))"

section \<open>Vocabulary of the statements\<close>

text \<open>
  The controller frames each reply with CR LF. \<open>wire ls\<close> is the character stream that
  carries the lines \<open>ls\<close>; a \<open>wire_line\<close> is a non-empty line without a terminator inside.
  \<open>is_ok\<close> and \<open>is_reject\<close> name the two tests of the acknowledgement loop, \<open>is_busy\<close> a
  status report that is neither Idle nor Alarm, and \<open>poll_events\<close> the trace that a run of
  busy polls leaves behind.
\<close>

definition wire :: "string list \<Rightarrow> string" where
  "wire ls = concat (map (\<lambda>l. l @ [CR, LF]) ls)"

definition wire_line :: "string \<Rightarrow> bool" where
  "wire_line l = (l \<noteq> [] \<and> CR \<notin> set l \<and> LF \<notin> set l)"



definition is_busy :: "string \<Rightarrow> bool" where
  "is_busy report = (parse_state report \<noteq> Some ''Idle'' \<and> parse_state report \<noteq> Some ''Alarm'')"

definition poll_events :: "rat \<Rightarrow> string list \<Rightarrow> event list" where
  "poll_events poll_s busy =
     concat (map (\<lambda>l. [SerialWrite [CHR ''?'', LF], SerialLine (strip l), TimeSleep poll_s]) busy)"

text \<open>A sample environment: the controller delivers the given characters, the clock reads
  \<open>0, 1, 2, \<dots>\<close> seconds, and no collaborator call fails.\<close>

definition controller_sends :: "string \<Rightarrow> world" where
  "controller_sends bytes =
     \<lparr>rx = bytes, clock = (\<lambda>n. of_nat n), ticks = 0, faulty = (\<lambda>n. False), trace = []\<rparr>"

text \<open>A sample executor over that environment, as \<^verbatim>\<open>run_print.py\<close> builds it: image directory
  \<^verbatim>\<open>/d\<close>, idle timeout 180 s, poll interval 0.1 s, post-exposure delay 1 s, pre-exposure
  delay 3 s.\<close>

definition idle_reply :: string where
  "idle_reply = ''<Idle|MPos:0.000>'' @ [CR, LF]"

definition sample_executor :: "bool \<Rightarrow> string \<Rightarrow> GcodeExecutor" where
  "sample_executor dry bytes =
     GcodeExecutor_init (controller_sends bytes) ''/d'' dry 180 (1 / 10) 30 1 3"

text \<open>
  For the exposure sequence: \<open>is_link_event\<close> singles out what the idle wait leaves in the
  trace (serial traffic and its own sleeps), \<open>exposure_steps\<close> is the list of collaborator
  calls that follow the wait, and \<open>run_calls\<close> issues a list of calls in order, stopping at
  the first one that raises.
\<close>

fun is_link_event :: "event \<Rightarrow> bool" where
  "is_link_event (SerialWrite bytes) = True"
| "is_link_event (SerialLine line) = True"
| "is_link_event (TimeSleep d) = True"
| "is_link_event ev = False"

definition exposure_steps :: "rat \<Rightarrow> string \<Rightarrow> event list" where
  "exposure_steps pre img =
     [ProjectorOff, DisplayBlack] @ (if pre > 0 then [DisplaySleep pre] else [])
       @ [DisplayShow img, ProjectorOn]"

definition issue :: "event \<Rightarrow> world \<Rightarrow> (error + unit) \<times> world" where
  "issue ev w = (case ev of DisplaySleep d \<Rightarrow> sleep_with_pump d w | _ \<Rightarrow> device_call ev w)"

primrec run_calls :: "event list \<Rightarrow> world \<Rightarrow> (error + unit) \<times> world" where
  "run_calls [] w = (Inr (), w)"
| "run_calls (ev # evs) w = then_do (issue ev w) (run_calls evs)"

text \<open>The sample executor with image 7 selected.\<close>

definition sample_ready :: GcodeExecutor where
  "sample_ready = (sample_executor False idle_reply)\<lparr>current_image := Some ''/d/7.png''\<rparr>"

text \<open>
  The operations of the program text, as the specification names them, and the
  classification of a non-blank line in the specification's precedence order: image
  selection first, then exposure, then dwell, and a motion command as the fallback.
  \<open>nonblank\<close> are the lines that remain after comment stripping, \<open>count_ops P\<close> counts the
  non-blank lines whose operation satisfies \<open>P\<close>, and \<open>bump\<close> is the counter an operation
  advances.
\<close>

datatype operation = SelectImage string | SetExposure rat | Dwell rat | MotionCommand string

definition classify :: "string \<Rightarrow> error + operation" where
  "classify line =
     (case re_M6054 line of
        Some g \<Rightarrow> Inr (SelectImage g)
      | None \<Rightarrow>
          (case re_M106 line of
             Some g \<Rightarrow> (case py_float g of None \<Rightarrow> Inl (ValueError g)
                         | Some level \<Rightarrow> Inr (SetExposure level))
           | None \<Rightarrow>
               (case re_G4P line of
                  Some g \<Rightarrow> (case py_float g of None \<Rightarrow> Inl (ValueError g)
                              | Some ms \<Rightarrow> Inr (Dwell ms))
                | None \<Rightarrow> Inr (MotionCommand line))))"

definition nonblank :: "string list \<Rightarrow> string list" where
  "nonblank program = filter (\<lambda>l. l \<noteq> []) (map strip_comment program)"

fun is_select :: "operation \<Rightarrow> bool" where
  "is_select (SelectImage g) = True"
| "is_select opn = False"

fun is_begin :: "operation \<Rightarrow> bool" where
  "is_begin (SetExposure level) = (level \<ge> 1)"
| "is_begin opn = False"

fun is_end :: "operation \<Rightarrow> bool" where
  "is_end (SetExposure level) = (\<not> level \<ge> 1)"
| "is_end opn = False"

fun is_dwell :: "operation \<Rightarrow> bool" where
  "is_dwell (Dwell ms) = True"
| "is_dwell opn = False"

fun is_motion :: "operation \<Rightarrow> bool" where
  "is_motion (MotionCommand t) = True"
| "is_motion opn = False"

definition line_is :: "(operation \<Rightarrow> bool) \<Rightarrow> string \<Rightarrow> bool" where
  "line_is P line = (case classify line of Inl e \<Rightarrow> False | Inr opn \<Rightarrow> P opn)"

definition count_ops :: "(operation \<Rightarrow> bool) \<Rightarrow> string list \<Rightarrow> int" where
  "count_ops P program = int (length (filter (line_is P) (nonblank program)))"

fun bump :: "operation \<Rightarrow> bool \<Rightarrow> RunStats \<Rightarrow> RunStats" where
  "bump (SelectImage g) dry st = st\<lparr>image_select_count := image_select_count st + 1\<rparr>"
| "bump (SetExposure level) dry st =
     (if level \<ge> 1 then st\<lparr>exposure_on_count := exposure_on_count st + 1\<rparr>
      else st\<lparr>exposure_off_count := exposure_off_count st + 1\<rparr>)"
| "bump (Dwell ms) dry st = st\<lparr>dwell_count := dwell_count st + 1\<rparr>"
| "bump (MotionCommand t) dry st =
     (if dry then st else st\<lparr>gcode_lines_sent_grbl := gcode_lines_sent_grbl st + 1\<rparr>)"

text \<open>The body of the loop of \<^verbatim>\<open>run_file\<close> for one non-blank line, and the dry-run
  counterpart of an executor state: the same session state over the environment \<open>w\<close>, with
  the forwarded-line counter set to \<open>k\<close>.\<close>

definition exec_line :: "string \<Rightarrow> GcodeExecutor \<Rightarrow> (error + unit) \<times> GcodeExecutor" where
  "exec_line line ex =
     (case handle_m6054 line ex of
        (True, ex2) \<Rightarrow> (Inr (), ex2)
      | (False, ex2) \<Rightarrow>
          (case handle_m106 line ex2 of
             (Inl e, ex3) \<Rightarrow> (Inl e, ex3)
           | (Inr True, ex3) \<Rightarrow> (Inr (), ex3)
           | (Inr False, ex3) \<Rightarrow>
               (case handle_g4 line ex3 of
                  (Inl e, ex4) \<Rightarrow> (Inl e, ex4)
                | (Inr True, ex4) \<Rightarrow> (Inr (), ex4)
                | (Inr False, ex4) \<Rightarrow> send_to_grbl line ex4)))"

definition dry_twin :: "GcodeExecutor \<Rightarrow> world \<Rightarrow> int \<Rightarrow> GcodeExecutor" where
  "dry_twin ex w k =
     ex\<lparr>dry_run := True, env := w, stats := (stats ex)\<lparr>gcode_lines_sent_grbl := k\<rparr>\<rparr>"

text \<open>Sample inputs.\<close>

definition ok_reply :: string where
  "ok_reply = ''ok'' @ [CR, LF]"

definition sample_program :: "string list" where
  "sample_program = [''M6054 7'', ''G1 Z5 ; lift'', '' ; next layer'', ''M106 S0'']"

section \<open>Facts about the text primitives and the line reader\<close>

lemma dropWhile_all: "list_all P xs \<Longrightarrow> dropWhile P xs = []"
  by (induction xs) simp_all

lemma dropWhile_all_rest: "list_all P (dropWhile P xs) \<Longrightarrow> dropWhile P xs = []"
  by (induction xs) (auto split: if_splits)

lemma strip_empty_iff: "strip s = [] \<longleftrightarrow> list_all isspace s"
proof
  assume "strip s = []"
  then have "list_all isspace (dropWhile isspace s)"
    by (simp add: strip_def dropWhile_eq_Nil_conv list_all_iff)
  then have "dropWhile isspace s = []" by (rule dropWhile_all_rest)
  then show "list_all isspace s" by (simp add: dropWhile_eq_Nil_conv list_all_iff)
next
  assume "list_all isspace s"
  then have d: "dropWhile isspace s = []" by (rule dropWhile_all)
  show "strip s = []" unfolding strip_def d by simp
qed




lemma strip_query: "strip ''?'' = ''?''"
  by code_simp

lemma readline_loop_skip:
  "set junk \<subseteq> {CR, LF} \<Longrightarrow> readline_loop [] (junk @ xs) = readline_loop [] xs"
  by (induction junk) auto

lemma readline_loop_body:
  "CR \<notin> set l \<Longrightarrow> LF \<notin> set l \<Longrightarrow> readline_loop buf (l @ xs) = readline_loop (buf @ l) xs"
  by (induction l arbitrary: buf) auto

lemma readline_loop_framed:
  assumes "set junk \<subseteq> {CR, LF}" and "wire_line l"
  shows "readline_loop [] (junk @ l @ CR # xs) = Some (l, xs)"
  using assms by (simp add: readline_loop_skip readline_loop_body wire_line_def)

lemma readline_framed:
  assumes "set junk \<subseteq> {CR, LF}" and "wire_line l" and "rx w = junk @ l @ CR # xs"
  shows "readline t w = (Inr (strip l), emit (SerialLine (strip l)) (w\<lparr>rx := xs\<rparr>))"
  using assms by (simp add: readline_def readline_loop_framed)

lemma get_status_framed:
  assumes "set junk \<subseteq> {CR, LF}" and "wire_line l" and "rx w = junk @ l @ CR # xs"
  shows "get_status w =
     (Inr \<lparr>raw = strip l, state = parse_state (strip l)\<rparr>,
      w\<lparr>rx := xs, trace := trace w @ [SerialWrite [CHR ''?'', LF], SerialLine (strip l)]\<rparr>)"
proof -
  let ?w = "write_line ''?'' w"
  have "rx ?w = junk @ l @ CR # xs" using assms(3) by (simp add: write_line_def emit_def)
  from readline_framed [OF assms(1,2) this, of 2]
  show ?thesis by (simp add: get_status_def write_line_def emit_def strip_query)
qed


lemma wait_loop_framed:
  assumes "list_all wire_line busy"
    and "list_all (\<lambda>l. is_busy (strip l)) busy"
    and "wire_line t"
    and "set junk \<subseteq> {CR, LF}"
    and "rx w = junk @ wire (busy @ [t]) @ rest"
    and "\<forall>i<length busy. clock w (ticks w + i) - t0 \<le> timeout_s"
    and "is_busy (strip t) \<longrightarrow> clock w (ticks w + length busy) - t0 > timeout_s"
  shows "wait_loop t0 timeout_s poll_s w =
     (if parse_state (strip t) = Some ''Idle'' then Inr ()
      else if parse_state (strip t) = Some ''Alarm'' then Inl (GrblAlarm (strip t))
      else Inl (IdleTimeout (strip t)),
      w\<lparr>rx := LF # rest,
        ticks := ticks w + length busy + (if is_busy (strip t) then 1 else 0),
        trace := trace w @ poll_events poll_s busy
                   @ [SerialWrite [CHR ''?'', LF], SerialLine (strip t)]\<rparr>)"
  using assms
proof (induction busy arbitrary: w junk)
  case Nil
  then have "rx w = junk @ t @ CR # LF # rest" by (simp add: wire_def)
  from get_status_framed [OF Nil.prems(4) Nil.prems(3) this]
  have g: "get_status w =
     (Inr \<lparr>raw = strip t, state = parse_state (strip t)\<rparr>,
      w\<lparr>rx := LF # rest, trace := trace w @ [SerialWrite [CHR ''?'', LF], SerialLine (strip t)]\<rparr>)" .
  show ?case using Nil.prems(7)
    by (subst wait_loop.simps) (simp add: g is_busy_def poll_events_def time_time_def)
next
  case (Cons l busy)
  from Cons.prems have l: "wire_line l" and b: "is_busy (strip l)" by simp_all
  from Cons.prems have "rx w = junk @ l @ CR # LF # wire (busy @ [t]) @ rest"
    by (simp add: wire_def)
  from get_status_framed [OF Cons.prems(4) l this]
  have g: "get_status w =
     (Inr \<lparr>raw = strip l, state = parse_state (strip l)\<rparr>,
      w\<lparr>rx := LF # wire (busy @ [t]) @ rest,
        trace := trace w @ [SerialWrite [CHR ''?'', LF], SerialLine (strip l)]\<rparr>)" .
  let ?w' = "w\<lparr>rx := LF # wire (busy @ [t]) @ rest, ticks := Suc (ticks w),
        trace := trace w @ [SerialWrite [CHR ''?'', LF], SerialLine (strip l), TimeSleep poll_s]\<rparr>"
  from Cons.prems(6) have now: "clock w (ticks w) - t0 \<le> timeout_s" by auto
  have step: "wait_loop t0 timeout_s poll_s w = wait_loop t0 timeout_s poll_s ?w'"
    using b now
    by (subst wait_loop.simps) (simp add: g is_busy_def time_time_def time_sleep_def emit_def)
  have "wait_loop t0 timeout_s poll_s ?w' =
     (if parse_state (strip t) = Some ''Idle'' then Inr ()
      else if parse_state (strip t) = Some ''Alarm'' then Inl (GrblAlarm (strip t))
      else Inl (IdleTimeout (strip t)),
      ?w'\<lparr>rx := LF # rest,
        ticks := ticks ?w' + length busy + (if is_busy (strip t) then 1 else 0),
        trace := trace ?w' @ poll_events poll_s busy
                   @ [SerialWrite [CHR ''?'', LF], SerialLine (strip t)]\<rparr>)"
  proof (rule Cons.IH [where junk = "[LF]"])
    show "rx ?w' = [LF] @ wire (busy @ [t]) @ rest" by simp
    show "\<forall>i<length busy. clock ?w' (ticks ?w' + i) - t0 \<le> timeout_s"
      using Cons.prems(6) by auto
    show "is_busy (strip t) \<longrightarrow> timeout_s < clock ?w' (ticks ?w' + length busy) - t0"
      using Cons.prems(7) by simp
  qed (use Cons.prems in simp_all)
  with step show ?case by (simp add: poll_events_def)
qed

section \<open>The motion link\<close>

text \<open>
  C10. Calling \<^verbatim>\<open>send_line_wait_ok\<close> with an empty or whitespace-only line is a no-op: it
  returns the empty string at once and the environment is unchanged (nothing written,
  nothing read, the trace and the pending input as before), and no error is raised.
\<close>

theorem send_line_wait_ok_blank_noop:
  "list_all isspace line \<Longrightarrow> send_line_wait_ok line w = (Inr [], w)"
  by (simp add: send_line_wait_ok_def strip_empty_iff)

theorem send_line_wait_ok_blank_noop_witness:
  "send_line_wait_ok [CHR 0x20, CHR 0x09, LF] (controller_sends ''ok'') = (Inr [], controller_sends ''ok'')"
proof -
  have "list_all isspace [CHR 0x20, CHR 0x09, LF]" by (simp add: isspace_def)
  then show ?thesis by (rule send_line_wait_ok_blank_noop)
qed







section \<open>The executor\<close>

subsection \<open>Evaluations on sample lines\<close>

lemma re_M106_S255: "re_M106 ''M106 S255'' = Some ''255''"
  by code_simp

lemma py_float_255: "py_float ''255'' = Some 255"
  by code_simp

lemma re_M106_S0: "re_M106 ''M106 S0'' = Some ''0''"
  by code_simp

lemma py_float_0: "py_float ''0'' = Some 0"
  by code_simp

lemma re_M6054_7: "re_M6054 ''M6054 7'' = Some ''7''"
  by code_simp

lemma bare_name_has_no_extension: "\<not> endswith (lower ''7'') ''.png'' \<and> \<not> endswith (lower ''7'') ''.bmp''
    \<and> \<not> endswith (lower ''7'') ''.jpg'' \<and> \<not> endswith (lower ''7'') ''.jpeg''"
  by code_simp

lemma path_of_image_7: "path_join ''/d'' ''7.png'' = ''/d/7.png''"
  by code_simp

lemma strip_comment_select: "strip_comment ''M6054 7'' = ''M6054 7''" by code_simp
lemma strip_comment_begin: "strip_comment ''M106 S255'' = ''M106 S255''" by code_simp
lemma strip_comment_end: "strip_comment ''M106 S0'' = ''M106 S0''" by code_simp
lemma begin_is_no_select: "re_M6054 ''M106 S255'' = None" by code_simp
lemma end_is_no_select: "re_M6054 ''M106 S0'' = None" by code_simp

lemma select_run_result: "run_file [''M6054 7''] (sample_executor True []) =
   (Inr (RunStats_new\<lparr>gcode_lines_total := 1, image_select_count := 1\<rparr>),
    (sample_executor True [])\<lparr>current_image := Some ''/d/7.png'',
       stats := RunStats_new\<lparr>gcode_lines_total := 1, image_select_count := 1\<rparr>\<rparr>)"
  by (simp add: run_file_def run_start_def strip_comment_select handle_m6054_def re_M6054_7 bare_name_has_no_extension path_of_image_7
       sample_executor_def GcodeExecutor_init_def RunStats_new_def)

lemma idle_poll:
  "wait_until_idle 180 (1 / 10) (controller_sends idle_reply)
     = (Inr (), (controller_sends [LF])\<lparr>ticks := 1,
                 trace := [SerialWrite [CHR ''?'', LF], SerialLine ''<Idle|MPos:0.000>'']\<rparr>)"
proof -
  let ?w = "(controller_sends idle_reply)\<lparr>ticks := Suc 0\<rparr>"
  have s1: "strip ''<Idle|MPos:0.000>'' = ''<Idle|MPos:0.000>''" by code_simp
  have p1: "parse_state ''<Idle|MPos:0.000>'' = Some ''Idle''" by code_simp
  have "rx ?w = [] @ wire ([] @ [''<Idle|MPos:0.000>'']) @ []"
    by (simp add: controller_sends_def wire_def idle_reply_def)
  from wait_loop_framed [OF _ _ _ _ this, of 0 180 "1 / 10"]
  have "wait_loop 0 180 (1 / 10) ?w =
     (Inr (), (controller_sends [LF])\<lparr>ticks := 1,
                 trace := [SerialWrite [CHR ''?'', LF], SerialLine ''<Idle|MPos:0.000>'']\<rparr>)"
    by (simp add: wire_line_def s1 p1 is_busy_def poll_events_def controller_sends_def)
  then show ?thesis
    by (simp add: wait_until_idle_def time_time_def controller_sends_def)
qed

subsection \<open>Exposure handling\<close>

lemma wait_loop_trace:
  "wait_loop t0 timeout_s poll_s w = (r, w') \<Longrightarrow>
     faulty w' = faulty w \<and>
     (\<exists>polls. trace w' = trace w @ polls \<and> list_all is_link_event polls \<and>
        (r = Inr () \<longrightarrow> (\<exists>before report. polls = before @ [SerialLine report]
                                \<and> parse_state report = Some ''Idle'')))"
proof (induction t0 timeout_s poll_s w arbitrary: r w' rule: wait_loop.induct)
  case (1 t0 timeout_s poll_s w)
  show ?case
  proof (cases "readline_loop [] (rx w)")
    case None
    with "1.prems" show ?thesis
      by (subst (asm) wait_loop.simps)
         (auto simp: get_status_def readline_def write_line_def emit_def)
  next
    case (Some p)
    obtain buf unread where p: "p = (buf, unread)" by (cases p)
    let ?st = "\<lparr>raw = strip buf, state = parse_state (strip buf)\<rparr>"
    let ?w1 = "w\<lparr>rx := unread,
                 trace := trace w @ [SerialWrite [CHR ''?'', LF], SerialLine (strip buf)]\<rparr>"
    have g: "get_status w = (Inr ?st, ?w1)"
      using Some p by (simp add: get_status_def readline_def write_line_def emit_def strip_query)
    show ?thesis
    proof (cases "parse_state (strip buf) = Some ''Idle''")
      case True
      with "1.prems" g have "r = Inr ()" "w' = ?w1"
        by (subst (asm) wait_loop.simps, simp)+
      with True show ?thesis by auto
    next
      case notidle: False
      show ?thesis
      proof (cases "parse_state (strip buf) = Some ''Alarm''")
        case True
        with "1.prems" g notidle have "r = Inl (GrblAlarm (strip buf))" "w' = ?w1"
          by (subst (asm) wait_loop.simps, simp)+
        then show ?thesis by auto
      next
        case notalarm: False
        let ?w2 = "?w1\<lparr>ticks := Suc (ticks w)\<rparr>"
        have tt: "time_time ?w1 = (clock w (ticks w), ?w2)" by (simp add: time_time_def)
        show ?thesis
        proof (cases "clock w (ticks w) - t0 > timeout_s")
          case True
          with "1.prems" g notidle notalarm tt
          have "r = Inl (IdleTimeout (strip buf))" "w' = ?w2"
            by (subst (asm) wait_loop.simps, simp)+
          then show ?thesis by auto
        next
          case False
          with "1.prems" g notidle notalarm tt
          have rec: "wait_loop t0 timeout_s poll_s (time_sleep poll_s ?w2) = (r, w')"
            by (subst (asm) wait_loop.simps) simp
          have "faulty w' = faulty (time_sleep poll_s ?w2) \<and>
            (\<exists>polls. trace w' = trace (time_sleep poll_s ?w2) @ polls \<and> list_all is_link_event polls \<and>
              (r = Inr () \<longrightarrow> (\<exists>before report. polls = before @ [SerialLine report]
                                \<and> parse_state report = Some ''Idle'')))"
          proof (rule "1.IH" [OF g [symmetric] refl _ _ tt [symmetric] False rec])
            show "state ?st \<noteq> Some ''Idle''" using notidle by simp
            show "state ?st \<noteq> Some ''Alarm''" using notalarm by simp
          qed
          then obtain polls where f: "faulty w' = faulty w"
            and tr: "trace w' = trace w @ [SerialWrite [CHR ''?'', LF], SerialLine (strip buf), TimeSleep poll_s] @ polls"
            and le: "list_all is_link_event polls"
            and idle: "r = Inr () \<longrightarrow> (\<exists>before report. polls = before @ [SerialLine report]
                                \<and> parse_state report = Some ''Idle'')"
            by (auto simp: time_sleep_def emit_def)
          show ?thesis
          proof (intro conjI exI [of _ "[SerialWrite [CHR ''?'', LF], SerialLine (strip buf), TimeSleep poll_s] @ polls"])
            show "faulty w' = faulty w" by (rule f)
            show "trace w' = trace w @ [SerialWrite [CHR ''?'', LF], SerialLine (strip buf), TimeSleep poll_s] @ polls"
              by (rule tr)
            show "list_all is_link_event ([SerialWrite [CHR ''?'', LF], SerialLine (strip buf), TimeSleep poll_s] @ polls)"
              using le by simp
            show "r = Inr () \<longrightarrow> (\<exists>before report.
                [SerialWrite [CHR ''?'', LF], SerialLine (strip buf), TimeSleep poll_s] @ polls
                   = before @ [SerialLine report] \<and> parse_state report = Some ''Idle'')"
            proof
              assume "r = Inr ()"
              with idle obtain before report where "polls = before @ [SerialLine report]"
                and "parse_state report = Some ''Idle''" by blast
              then show "\<exists>before report.
                [SerialWrite [CHR ''?'', LF], SerialLine (strip buf), TimeSleep poll_s] @ polls
                   = before @ [SerialLine report] \<and> parse_state report = Some ''Idle''"
                by (intro exI [of _ "[SerialWrite [CHR ''?'', LF], SerialLine (strip buf), TimeSleep poll_s] @ before"]
                      exI [of _ report]) simp
            qed
          qed
        qed
      qed
    qed
  qed
qed

lemma wait_until_idle_trace:
  "wait_until_idle timeout_s poll_s w = (r, w') \<Longrightarrow>
     faulty w' = faulty w \<and>
     (\<exists>polls. trace w' = trace w @ polls \<and> list_all is_link_event polls \<and>
        (r = Inr () \<longrightarrow> (\<exists>before report. polls = before @ [SerialLine report]
                                \<and> parse_state report = Some ''Idle'')))"
  using wait_loop_trace [of "clock w (ticks w)" timeout_s poll_s "w\<lparr>ticks := Suc (ticks w)\<rparr>" r w']
  by (simp add: wait_until_idle_def time_time_def)


lemma issue_result:
  "issue ev w = (r, w1) \<Longrightarrow>
     w1 = emit ev w \<and> (r = Inr () \<or> r = Inl (DeviceFault ev))
       \<and> ((\<forall>n. \<not> faulty w n) \<longrightarrow> r = Inr ())"
  by (cases ev) (auto simp: issue_def sleep_with_pump_def device_call_def split: if_splits)

lemma run_calls_trace:
  "run_calls evs w = (r, w') \<Longrightarrow>
     faulty w' = faulty w \<and>
     (\<exists>issued. trace w' = trace w @ issued \<and> prefix issued evs
        \<and> (r = Inr () \<longrightarrow> issued = evs)
        \<and> (\<forall>e. r = Inl e \<longrightarrow> issued \<noteq> [] \<and> e = DeviceFault (last issued))
        \<and> ((\<forall>n. \<not> faulty w n) \<longrightarrow> r = Inr ()))"
proof (induction evs arbitrary: w r w')
  case Nil
  then show ?case by auto
next
  case (Cons ev evs)
  obtain r1 w1 where i: "issue ev w = (r1, w1)" by (cases "issue ev w")
  from issue_result [OF i] have w1: "w1 = emit ev w"
    and r1: "r1 = Inr () \<or> r1 = Inl (DeviceFault ev)"
    and nf1: "(\<forall>n. \<not> faulty w n) \<longrightarrow> r1 = Inr ()" by simp_all
  from r1 show ?case
  proof
    assume ok: "r1 = Inr ()"
    with Cons.prems i have rec: "run_calls evs w1 = (r, w')" by (simp add: then_do_def)
    from Cons.IH [OF rec] w1 obtain issued where f: "faulty w' = faulty w"
      and tr: "trace w' = trace w @ ev # issued" and pre: "prefix issued evs"
      and fin: "r = Inr () \<longrightarrow> issued = evs"
      and err: "\<forall>e. r = Inl e \<longrightarrow> issued \<noteq> [] \<and> e = DeviceFault (last issued)"
      and nf: "(\<forall>n. \<not> faulty w n) \<longrightarrow> r = Inr ()"
      by (auto simp: emit_def)
    show ?thesis
    proof (intro conjI exI [of _ "ev # issued"])
      show "\<forall>e. r = Inl e \<longrightarrow> ev # issued \<noteq> [] \<and> e = DeviceFault (last (ev # issued))"
        using err by auto
    qed (use f tr pre fin nf in simp_all)
  next
    assume bad: "r1 = Inl (DeviceFault ev)"
    with Cons.prems i have "r = Inl (DeviceFault ev)" and "w' = w1" by (simp_all add: then_do_def)
    with w1 nf1 bad show ?thesis
      by (intro conjI exI [of _ "[ev]"]) (auto simp: emit_def)
  qed
qed

lemma handle_m106_live_begin:
  assumes "re_M106 line = Some g" and "py_float g = Some level" and "level \<ge> 1"
    and "\<not> dry_run ex" and "current_image ex = Some img"
  shows "handle_m106 line ex =
     (let ex1 = ex\<lparr>stats := (stats ex)\<lparr>exposure_on_count := exposure_on_count (stats ex) + 1\<rparr>\<rparr>
      in case then_do (wait_until_idle (idle_timeout_s ex) (idle_poll_s ex) (env ex))
                (run_calls (exposure_steps (pre_exposure_black_delay_s ex) img)) of
           (Inl e, w) \<Rightarrow> (Inl e, ex1\<lparr>env := w\<rparr>)
         | (Inr u, w) \<Rightarrow> (Inr True, ex1\<lparr>env := w\<rparr>))"
proof (cases "pre_exposure_black_delay_s ex > 0")
  case True
  with assms show ?thesis
    by (simp add: handle_m106_def Let_def exposure_steps_def issue_def projector_off_def
          display_black_def display_show_def projector_on_def then_do_def
          cong: if_cong split: prod.splits sum.splits)
next
  case False
  with assms show ?thesis
    by (simp add: handle_m106_def Let_def exposure_steps_def issue_def projector_off_def
          display_black_def display_show_def projector_on_def then_do_def
          cong: if_cong split: prod.splits sum.splits)
qed

text \<open>
  C1. A begin-exposure line (\<^verbatim>\<open>M106\<close> with level at least 1) handled in live mode with
  an image selected extends the trace by the events of the idle wait followed by a prefix of
  the calls \<open>Projector.off, Display.black,\<close> (the pre-exposure hold, if the configured delay
  is positive)\<open>, Display.show image, Projector.on\<close>, in this order. The wait itself makes no
  projector or display call. If any of the calls has been issued, the wait ended on a status
  report with state Idle, so illumination is never switched on before Idle has been observed.
  The handler succeeds only with the whole list issued; when it fails after a call was
  issued, it fails with the fault of the last call issued, so no later step is attempted;
  and when the wait returns normally and no call faults, the handler succeeds.
\<close>

theorem begin_exposure_sequence:
  assumes "re_M106 line = Some g" and "py_float g = Some level" and "level \<ge> 1"
    and "\<not> dry_run ex" and "current_image ex = Some img"
    and "handle_m106 line ex = (r, ex')"
  shows "\<exists>polls issued.
      trace (env ex') = trace (env ex) @ polls @ issued
      \<and> list_all is_link_event polls
      \<and> prefix issued (exposure_steps (pre_exposure_black_delay_s ex) img)
      \<and> (issued \<noteq> [] \<longrightarrow> (\<exists>before report. polls = before @ [SerialLine report]
                                \<and> parse_state report = Some ''Idle''))
      \<and> (r = Inr True \<longrightarrow> issued = exposure_steps (pre_exposure_black_delay_s ex) img)
      \<and> (r \<noteq> Inr True \<and> issued \<noteq> [] \<longrightarrow> r = Inl (DeviceFault (last issued)))
      \<and> r \<noteq> Inr False
      \<and> (fst (wait_until_idle (idle_timeout_s ex) (idle_poll_s ex) (env ex)) = Inr ()
           \<and> (\<forall>n. \<not> faulty (env ex) n) \<longrightarrow> r = Inr True)"
proof -
  let ?steps = "exposure_steps (pre_exposure_black_delay_s ex) img"
  let ?ex1 = "ex\<lparr>stats := (stats ex)\<lparr>exposure_on_count := exposure_on_count (stats ex) + 1\<rparr>\<rparr>"
  obtain r0 w1 where w: "wait_until_idle (idle_timeout_s ex) (idle_poll_s ex) (env ex) = (r0, w1)"
    by (cases "wait_until_idle (idle_timeout_s ex) (idle_poll_s ex) (env ex)")
  from wait_until_idle_trace [OF w] obtain polls where f1: "faulty w1 = faulty (env ex)"
    and t1: "trace w1 = trace (env ex) @ polls" and l1: "list_all is_link_event polls"
    and i1: "r0 = Inr () \<longrightarrow> (\<exists>before report. polls = before @ [SerialLine report]
                                \<and> parse_state report = Some ''Idle'')"
    by blast
  note h = handle_m106_live_begin [OF assms(1-5)]
  show ?thesis
  proof (cases r0)
    case (Inl e)
    with h w assms(6) have "r = Inl e" and "ex' = ?ex1\<lparr>env := w1\<rparr>"
      by (simp_all add: then_do_def Let_def)
    with t1 l1 w Inl
    have "trace (env ex') = trace (env ex) @ polls @ [] \<and> list_all is_link_event polls
       \<and> r \<noteq> Inr True \<and> r \<noteq> Inr False
       \<and> fst (wait_until_idle (idle_timeout_s ex) (idle_poll_s ex) (env ex)) \<noteq> Inr ()"
      by simp
    then show ?thesis
      by - (rule exI [of _ polls], rule exI [of _ "[]"], simp)
  next
    case (Inr u)
    obtain r2 w2 where c: "run_calls ?steps w1 = (r2, w2)" by (cases "run_calls ?steps w1")
    from run_calls_trace [OF c] obtain issued where t2: "trace w2 = trace w1 @ issued"
      and p2: "prefix issued ?steps" and ok2: "r2 = Inr () \<longrightarrow> issued = ?steps"
      and e2: "\<forall>e. r2 = Inl e \<longrightarrow> issued \<noteq> [] \<and> e = DeviceFault (last issued)"
      and n2: "(\<forall>n. \<not> faulty w1 n) \<longrightarrow> r2 = Inr ()"
      by blast
    from h w c Inr assms(6)
    have r: "r = (case r2 of Inl e \<Rightarrow> Inl e | Inr u \<Rightarrow> Inr True)" and ex': "ex' = ?ex1\<lparr>env := w2\<rparr>"
      by (simp_all add: then_do_def Let_def split: sum.splits)
    show ?thesis
    proof (rule exI [of _ polls], rule exI [of _ issued], intro conjI)
      show "trace (env ex') = trace (env ex) @ polls @ issued" using ex' t1 t2 by simp
      show "list_all is_link_event polls" by (rule l1)
      show "prefix issued ?steps" by (rule p2)
      show "issued \<noteq> [] \<longrightarrow> (\<exists>before report. polls = before @ [SerialLine report]
                                \<and> parse_state report = Some ''Idle'')"
        using i1 Inr by simp
      show "r = Inr True \<longrightarrow> issued = ?steps" using r ok2 by (cases r2) auto
      show "r \<noteq> Inr True \<and> issued \<noteq> [] \<longrightarrow> r = Inl (DeviceFault (last issued))"
        using r e2 by (cases r2) auto
      show "r \<noteq> Inr False" using r by (cases r2) auto
      show "fst (wait_until_idle (idle_timeout_s ex) (idle_poll_s ex) (env ex)) = Inr ()
           \<and> (\<forall>n. \<not> faulty (env ex) n) \<longrightarrow> r = Inr True"
        using r n2 f1 by (cases r2) auto
    qed
  qed
qed

lemma sample_world_facts:
  "faulty (controller_sends b) n = False" "trace (controller_sends b) = []"
  by (simp_all add: controller_sends_def)

lemma sample_ready_begin:
  "fst (handle_m106 ''M106 S255'' sample_ready) = Inr True"
  by (simp add: sample_ready_def handle_m106_def re_M106_S255 py_float_255
        sample_executor_def GcodeExecutor_init_def idle_poll then_do_def
        projector_off_def projector_on_def display_black_def display_show_def sleep_with_pump_def
        device_call_def emit_def sample_world_facts Let_def)

theorem begin_exposure_sequence_witness:
  "fst (handle_m106 ''M106 S255'' sample_ready) = Inr True
   \<and> (\<exists>before report.
         trace (env (snd (handle_m106 ''M106 S255'' sample_ready)))
           = before @ [SerialLine report, ProjectorOff, DisplayBlack, DisplaySleep 3,
                        DisplayShow ''/d/7.png'', ProjectorOn]
         \<and> list_all is_link_event before \<and> parse_state report = Some ''Idle'')"
proof -
  define ex' where "ex' = snd (handle_m106 ''M106 S255'' sample_ready)"
  have l: "(255::rat) \<ge> 1" by simp
  have d: "\<not> dry_run sample_ready"
    by (simp add: sample_ready_def sample_executor_def GcodeExecutor_init_def)
  have c: "current_image sample_ready = Some ''/d/7.png''" by (simp add: sample_ready_def)
  have p: "pre_exposure_black_delay_s sample_ready = 3"
    by (simp add: sample_ready_def sample_executor_def GcodeExecutor_init_def)
  have t: "trace (env sample_ready) = []"
    by (simp add: sample_ready_def sample_executor_def GcodeExecutor_init_def sample_world_facts)
  have h: "handle_m106 ''M106 S255'' sample_ready = (Inr True, ex')"
    using sample_ready_begin by (simp add: ex'_def prod_eq_iff)
  from begin_exposure_sequence [OF re_M106_S255 py_float_255 l d c h]
  obtain polls issued where tr: "trace (env ex') = trace (env sample_ready) @ polls @ issued"
    and le: "list_all is_link_event polls"
    and idle: "issued \<noteq> [] \<longrightarrow> (\<exists>before report. polls = before @ [SerialLine report]
                                \<and> parse_state report = Some ''Idle'')"
    and all: "issued = exposure_steps (pre_exposure_black_delay_s sample_ready) ''/d/7.png''"
    by blast
  from all p have i: "issued = [ProjectorOff, DisplayBlack, DisplaySleep 3,
                        DisplayShow ''/d/7.png'', ProjectorOn]"
    by (simp add: exposure_steps_def)
  with idle obtain before report where b: "polls = before @ [SerialLine report]"
    and s: "parse_state report = Some ''Idle''" by auto
  from tr t i b le s
  have "trace (env ex') = before @ [SerialLine report, ProjectorOff, DisplayBlack, DisplaySleep 3,
                        DisplayShow ''/d/7.png'', ProjectorOn]
         \<and> list_all is_link_event before \<and> parse_state report = Some ''Idle''"
    by simp
  then show ?thesis using sample_ready_begin unfolding ex'_def by blast
qed

text \<open>
  C6. A begin-exposure line (\<^verbatim>\<open>M106\<close> with level at least 1) handled while no image is
  selected raises the no-image-selected error; the environment is left as it was, so no
  call on the motion link, the projector or the display has been made, and the exposure-on
  counter has nevertheless been incremented. This holds in live and in dry-run mode.
\<close>

theorem begin_exposure_without_image:
  assumes "re_M106 line = Some g" and "py_float g = Some level" and "level \<ge> 1"
    and "current_image ex = None"
  shows "handle_m106 line ex =
     (Inl NoImageSelected,
      ex\<lparr>stats := (stats ex)\<lparr>exposure_on_count := exposure_on_count (stats ex) + 1\<rparr>\<rparr>)"
  using assms by (simp add: handle_m106_def)

theorem begin_exposure_without_image_witness:
  "handle_m106 ''M106 S255'' (sample_executor False idle_reply)
     = (Inl NoImageSelected,
        (sample_executor False idle_reply)
          \<lparr>stats := RunStats_new\<lparr>exposure_on_count := 1\<rparr>\<rparr>)"
proof -
  define ex where "ex = sample_executor False idle_reply"
  have l: "(255::rat) \<ge> 1" by simp
  have c: "current_image ex = None"
    by (simp add: ex_def sample_executor_def GcodeExecutor_init_def)
  have s: "stats ex = RunStats_new"
    by (simp add: ex_def sample_executor_def GcodeExecutor_init_def)
  from begin_exposure_without_image [OF re_M106_S255 py_float_255 l c]
  have "handle_m106 ''M106 S255'' ex
     = (Inl NoImageSelected, ex\<lparr>stats := RunStats_new\<lparr>exposure_on_count := 1\<rparr>\<rparr>)"
    by (simp add: s RunStats_new_def)
  then show ?thesis unfolding ex_def .
qed

lemma exposure_flag_stays_false:
  "\<not> exposure_active ex \<Longrightarrow> \<not> exposure_active (snd (handle_m106 line ex))"
  by (auto simp: handle_m106_def Let_def split: option.splits if_splits prod.splits sum.splits)

text \<open>
  C2, on the code as it is. The post-exposure delay is configured as 1 s and an image is
  selected. \<^verbatim>\<open>M106 S255\<close> succeeds in live mode with all five steps, yet the flag
  \<open>exposure_active\<close> is still false afterwards, and the \<^verbatim>\<open>M106 S0\<close> that follows switches the
  projector off and blanks the display without holding the post-exposure delay: the trace
  ends with \<open>ProjectorOff, DisplayBlack\<close> and no \<open>DisplaySleep 1\<close>.
\<close>

theorem post_exposure_delay_is_skipped:
  "(let ex0 = (sample_executor False idle_reply)\<lparr>current_image := Some ''/d/7.png''\<rparr>;
        (r1, ex1) = handle_m106 ''M106 S255'' ex0;
        (r2, ex2) = handle_m106 ''M106 S0'' ex1
    in r1 = Inr True \<and> exposure_active ex1 = False \<and> r2 = Inr True
       \<and> post_exposure_black_delay_s ex1 = 1
       \<and> trace (env ex2) =
           [SerialWrite [CHR ''?'', LF], SerialLine ''<Idle|MPos:0.000>'',
            ProjectorOff, DisplayBlack, DisplaySleep 3, DisplayShow ''/d/7.png'', ProjectorOn,
            ProjectorOff, DisplayBlack])"
proof -
  have f: "\<And>b n. faulty (controller_sends b) n = False"
    and t: "\<And>b. trace (controller_sends b) = []"
    by (simp_all add: controller_sends_def)
  show ?thesis
    by (simp add: handle_m106_def re_M106_S255 py_float_255 re_M106_S0 py_float_0
        sample_executor_def GcodeExecutor_init_def idle_poll then_do_def
        projector_off_def projector_on_def display_black_def display_show_def sleep_with_pump_def
        device_call_def emit_def f t Let_def)
qed

subsection \<open>Runs\<close>

text \<open>
  C9, as amended. The run operation starts by replacing the counters with zeroed ones and
  resets nothing else: the selected image and the exposure flag keep the values the previous
  run left, and the counters left by a previous run never influence a run. Only a newly
  constructed executor has no image selected and the exposure flag false.
\<close>

theorem run_start_resets_counters_only:
  "stats (run_start ex) = RunStats_new
   \<and> current_image (run_start ex) = current_image ex
   \<and> exposure_active (run_start ex) = exposure_active ex
   \<and> run_file program (ex\<lparr>stats := previous\<rparr>) = run_file program ex
   \<and> current_image (GcodeExecutor_init devices dir dry t p hz post pre) = None
   \<and> exposure_active (GcodeExecutor_init devices dir dry t p hz post pre) = False
   \<and> stats (GcodeExecutor_init devices dir dry t p hz post pre) = RunStats_new"
  by (simp add: run_start_def run_file_def GcodeExecutor_init_def)

text \<open>
  The claim as stated fails: after a run that selects image 7, the next run on the same
  executor starts with that image still selected, so a program consisting of
  \<^verbatim>\<open>M106 S255\<close> alone, which raises no-image-selected on a new executor, runs to completion.
\<close>

theorem second_run_sees_previous_image:
  "current_image (run_start (snd (run_file [''M6054 7''] (sample_executor True [])))) = Some ''/d/7.png''
   \<and> fst (run_file [''M106 S255''] (sample_executor True [])) = Inl NoImageSelected
   \<and> fst (run_file [''M106 S255''] (snd (run_file [''M6054 7''] (sample_executor True []))))
        = Inr (RunStats_new\<lparr>gcode_lines_total := 1, exposure_on_count := 1\<rparr>)"
proof -
  have a: "current_image (run_start (snd (run_file [''M6054 7''] (sample_executor True []))))
             = Some ''/d/7.png''"
    by (simp add: select_run_result run_start_def)
  have b: "fst (run_file [''M106 S255''] (sample_executor True [])) = Inl NoImageSelected"
    by (simp add: run_file_def run_start_def strip_comment_begin handle_m6054_def begin_is_no_select handle_m106_def
          re_M106_S255 py_float_255 sample_executor_def GcodeExecutor_init_def)
  have e: "snd (run_file [''M6054 7''] (sample_executor True []))
        = (sample_executor True [])\<lparr>current_image := Some ''/d/7.png'',
            stats := RunStats_new\<lparr>gcode_lines_total := 1, image_select_count := 1\<rparr>\<rparr>"
    by (simp add: select_run_result)
  have c: "fst (run_file [''M106 S255''] (snd (run_file [''M6054 7''] (sample_executor True []))))
        = Inr (RunStats_new\<lparr>gcode_lines_total := 1, exposure_on_count := 1\<rparr>)"
    unfolding e
    by (simp add: run_file_def run_start_def strip_comment_begin handle_m6054_def begin_is_no_select handle_m106_def
          re_M106_S255 py_float_255 sample_executor_def GcodeExecutor_init_def RunStats_new_def)
  from a b c show ?thesis by simp
qed

subsection \<open>Counters\<close>

lemma run_lines_Cons:
  "run_lines (raw_line # rest) ex =
     (let ex1 = ex\<lparr>stats := (stats ex)\<lparr>gcode_lines_total := gcode_lines_total (stats ex) + 1\<rparr>\<rparr>
      in if strip_comment raw_line = [] then run_lines rest ex1
         else (case exec_line (strip_comment raw_line) ex1 of
                 (Inl e, ex2) \<Rightarrow> (Inl e, ex2)
               | (Inr u, ex2) \<Rightarrow> run_lines rest ex2))"
  by (simp add: exec_line_def Let_def split: prod.splits sum.splits bool.splits)

lemma handle_m6054_effect:
  "handle_m6054 line ex = (b, ex') \<Longrightarrow>
     dry_run ex' = dry_run ex \<and>
     (case re_M6054 line of
        None \<Rightarrow> \<not> b \<and> ex' = ex
      | Some g \<Rightarrow> b \<and> stats ex' = (stats ex)\<lparr>image_select_count := image_select_count (stats ex) + 1\<rparr>)"
  by (auto simp: handle_m6054_def Let_def split: option.splits)

lemma handle_m106_effect:
  "handle_m106 line ex = (Inr b, ex') \<Longrightarrow>
     dry_run ex' = dry_run ex \<and>
     (case re_M106 line of
        None \<Rightarrow> \<not> b \<and> ex' = ex
      | Some g \<Rightarrow> b \<and> (case py_float g of None \<Rightarrow> False
                        | Some level \<Rightarrow> stats ex' = bump (SetExposure level) (dry_run ex) (stats ex)))"
  by (auto simp: handle_m106_def Let_def split: option.splits if_splits prod.splits sum.splits)

lemma handle_g4_effect:
  "handle_g4 line ex = (Inr b, ex') \<Longrightarrow>
     dry_run ex' = dry_run ex \<and>
     (case re_G4P line of
        None \<Rightarrow> \<not> b \<and> ex' = ex
      | Some g \<Rightarrow> b \<and> (case py_float g of None \<Rightarrow> False
                        | Some ms \<Rightarrow> stats ex' = bump (Dwell ms) (dry_run ex) (stats ex)))"
  by (auto simp: handle_g4_def Let_def sleep_with_pump_def split: option.splits if_splits prod.splits sum.splits)

lemma send_to_grbl_effect:
  "send_to_grbl line ex = (Inr u, ex') \<Longrightarrow>
     dry_run ex' = dry_run ex \<and> stats ex' = bump (MotionCommand line) (dry_run ex) (stats ex)"
  by (auto simp: send_to_grbl_def split: if_splits prod.splits sum.splits)

lemma exec_line_effect:
  assumes "exec_line line ex = (Inr u, ex')"
  shows "\<exists>opn. classify line = Inr opn \<and> dry_run ex' = dry_run ex
            \<and> stats ex' = bump opn (dry_run ex) (stats ex)"
proof -
  obtain b2 ex2 where h2: "handle_m6054 line ex = (b2, ex2)" by (cases "handle_m6054 line ex")
  note e2 = handle_m6054_effect [OF h2]
  show ?thesis
  proof (cases "re_M6054 line")
    case (Some g)
    with e2 assms h2 show ?thesis by (auto simp: exec_line_def classify_def)
  next
    case None
    with e2 have b2: "\<not> b2" and ex2: "ex2 = ex" by simp_all
    obtain r3 ex3 where h3: "handle_m106 line ex = (r3, ex3)" by (cases "handle_m106 line ex")
    with assms h2 b2 ex2 obtain b3 where r3: "r3 = Inr b3"
      by (cases r3) (auto simp: exec_line_def)
    note e3 = handle_m106_effect [OF h3 [unfolded r3]]
    show ?thesis
    proof (cases "re_M106 line")
      case (Some g)
      with e3 assms h2 h3 r3 b2 ex2 None show ?thesis
        by (auto simp: exec_line_def classify_def split: option.splits)
    next
      case n106: None
      with e3 have b3: "\<not> b3" and ex3: "ex3 = ex" by simp_all
      obtain r4 ex4 where h4: "handle_g4 line ex = (r4, ex4)" by (cases "handle_g4 line ex")
      with assms h2 b2 ex2 h3 r3 b3 ex3 obtain b4 where r4: "r4 = Inr b4"
        by (cases r4) (auto simp: exec_line_def)
      note e4 = handle_g4_effect [OF h4 [unfolded r4]]
      show ?thesis
      proof (cases "re_G4P line")
        case (Some g)
        with e4 assms h2 h3 h4 r3 r4 b2 b3 ex2 ex3 None n106 show ?thesis
          by (auto simp: exec_line_def classify_def split: option.splits)
      next
        case ng4: None
        with e4 have b4: "\<not> b4" and ex4: "ex4 = ex" by simp_all
        from assms h2 h3 h4 r3 r4 b2 b3 b4 ex2 ex3 ex4
        have "send_to_grbl line ex = (Inr u, ex')" by (simp add: exec_line_def)
        from send_to_grbl_effect [OF this] None n106 ng4 show ?thesis
          by (simp add: classify_def)
      qed
    qed
  qed
qed


lemma bump_fields:
  "gcode_lines_total (bump opn dry st) = gcode_lines_total st"
  "image_select_count (bump opn dry st) = image_select_count st + (if is_select opn then 1 else 0)"
  "exposure_on_count (bump opn dry st) = exposure_on_count st + (if is_begin opn then 1 else 0)"
  "exposure_off_count (bump opn dry st) = exposure_off_count st + (if is_end opn then 1 else 0)"
  "dwell_count (bump opn dry st) = dwell_count st + (if is_dwell opn then 1 else 0)"
  "gcode_lines_sent_grbl (bump opn dry st)
     = gcode_lines_sent_grbl st + (if is_motion opn \<and> \<not> dry then 1 else 0)"
  by (cases opn; simp)+

lemma count_ops_Cons:
  "count_ops P (raw_line # rest) =
     (if strip_comment raw_line \<noteq> [] \<and> line_is P (strip_comment raw_line) then 1 else 0)
       + count_ops P rest"
  by (simp add: count_ops_def nonblank_def)

lemma run_lines_counts:
  "run_lines program ex = (Inr u, ex') \<Longrightarrow>
     dry_run ex' = dry_run ex
     \<and> gcode_lines_total (stats ex') = gcode_lines_total (stats ex) + int (length program)
     \<and> image_select_count (stats ex') = image_select_count (stats ex) + count_ops is_select program
     \<and> exposure_on_count (stats ex') = exposure_on_count (stats ex) + count_ops is_begin program
     \<and> exposure_off_count (stats ex') = exposure_off_count (stats ex) + count_ops is_end program
     \<and> dwell_count (stats ex') = dwell_count (stats ex) + count_ops is_dwell program
     \<and> gcode_lines_sent_grbl (stats ex')
          = gcode_lines_sent_grbl (stats ex) + (if dry_run ex then 0 else count_ops is_motion program)
     \<and> list_all (\<lambda>l. \<not> isl (classify l)) (nonblank program)"
proof (induction program arbitrary: ex)
  case Nil
  then show ?case by (simp add: count_ops_def nonblank_def)
next
  case (Cons raw_line rest)
  let ?ex1 = "ex\<lparr>stats := (stats ex)\<lparr>gcode_lines_total := gcode_lines_total (stats ex) + 1\<rparr>\<rparr>"
  let ?line = "strip_comment raw_line"
  show ?case
  proof (cases "?line = []")
    case True
    with Cons.prems have "run_lines rest ?ex1 = (Inr u, ex')"
      by (simp add: run_lines_Cons Let_def del: run_lines.simps)
    from Cons.IH [OF this] True show ?thesis
      by (simp add: count_ops_Cons nonblank_def)
  next
    case False
    obtain r2 ex2 where x: "exec_line ?line ?ex1 = (r2, ex2)" by (cases "exec_line ?line ?ex1")
    with Cons.prems False obtain u2 where r2: "r2 = Inr u2"
      by (cases r2) (auto simp: run_lines_Cons Let_def simp del: run_lines.simps)
    from Cons.prems False x r2 have rec: "run_lines rest ex2 = (Inr u, ex')"
      by (simp add: run_lines_Cons Let_def del: run_lines.simps)
    from exec_line_effect [OF x [unfolded r2]] obtain opn where c: "classify ?line = Inr opn"
      and d: "dry_run ex2 = dry_run ex" and st: "stats ex2 = bump opn (dry_run ex) (stats ?ex1)"
      by auto
    from Cons.IH [OF rec] d st c False show ?thesis
      by (simp add: count_ops_Cons bump_fields line_is_def nonblank_def)
  qed
qed


lemma handle_m6054_twin:
  "handle_m6054 line ex = (b, ex') \<Longrightarrow>
     handle_m6054 line (dry_twin ex w k) = (b, dry_twin ex' w k)"
  by (auto simp: handle_m6054_def dry_twin_def Let_def split: option.splits)

lemma handle_m106_twin:
  "handle_m106 line ex = (Inr b, ex') \<Longrightarrow>
     handle_m106 line (dry_twin ex w k) = (Inr b, dry_twin ex' w k)"
  by (auto simp: handle_m106_def dry_twin_def Let_def
      split: option.splits if_splits prod.splits sum.splits)

lemma handle_g4_twin:
  "handle_g4 line ex = (Inr b, ex') \<Longrightarrow>
     handle_g4 line (dry_twin ex w k) = (Inr b, dry_twin ex' w k)"
  by (auto simp: handle_g4_def dry_twin_def Let_def sleep_with_pump_def
      split: option.splits if_splits prod.splits sum.splits)

lemma send_to_grbl_twin:
  "send_to_grbl line ex = (Inr u, ex') \<Longrightarrow>
     send_to_grbl line (dry_twin ex w k) = (Inr u, dry_twin ex' w k)"
  by (auto simp: send_to_grbl_def dry_twin_def split: if_splits prod.splits sum.splits)

lemma exec_line_twin:
  assumes "exec_line line ex = (Inr u, ex')"
  shows "exec_line line (dry_twin ex w k) = (Inr u, dry_twin ex' w k)"
proof -
  obtain b2 ex2 where h2: "handle_m6054 line ex = (b2, ex2)" by (cases "handle_m6054 line ex")
  note t2 = handle_m6054_twin [OF h2, of w k]
  show ?thesis
  proof (cases b2)
    case True
    with assms h2 t2 show ?thesis by (simp add: exec_line_def)
  next
    case b2: False
    obtain r3 ex3 where h3: "handle_m106 line ex2 = (r3, ex3)" by (cases "handle_m106 line ex2")
    with assms h2 b2 obtain b3 where r3: "r3 = Inr b3"
      by (cases r3) (auto simp: exec_line_def)
    note t3 = handle_m106_twin [OF h3 [unfolded r3], of w k]
    show ?thesis
    proof (cases b3)
      case True
      with assms h2 t2 b2 h3 r3 t3 show ?thesis by (simp add: exec_line_def)
    next
      case b3: False
      obtain r4 ex4 where h4: "handle_g4 line ex3 = (r4, ex4)" by (cases "handle_g4 line ex3")
      with assms h2 b2 h3 r3 b3 obtain b4 where r4: "r4 = Inr b4"
        by (cases r4) (auto simp: exec_line_def)
      note t4 = handle_g4_twin [OF h4 [unfolded r4], of w k]
      show ?thesis
      proof (cases b4)
        case True
        with assms h2 t2 b2 h3 r3 t3 b3 h4 r4 t4 show ?thesis by (simp add: exec_line_def)
      next
        case b4: False
        with assms h2 b2 h3 r3 b3 h4 r4 have "send_to_grbl line ex4 = (Inr u, ex')"
          by (simp add: exec_line_def)
        from send_to_grbl_twin [OF this, of w k] h2 t2 b2 h3 r3 t3 b3 h4 r4 t4 b4
        show ?thesis by (simp add: exec_line_def)
      qed
    qed
  qed
qed

lemma run_lines_twin:
  "run_lines program ex = (Inr u, ex') \<Longrightarrow>
     run_lines program (dry_twin ex w k) = (Inr u, dry_twin ex' w k)"
proof (induction program arbitrary: ex)
  case Nil
  then show ?case by simp
next
  case (Cons raw_line rest)
  let ?ex1 = "ex\<lparr>stats := (stats ex)\<lparr>gcode_lines_total := gcode_lines_total (stats ex) + 1\<rparr>\<rparr>"
  let ?line = "strip_comment raw_line"
  have tw: "(dry_twin ex w k)\<lparr>stats := (stats (dry_twin ex w k))
               \<lparr>gcode_lines_total := gcode_lines_total (stats (dry_twin ex w k)) + 1\<rparr>\<rparr>
             = dry_twin ?ex1 w k"
    by (simp add: dry_twin_def)
  show ?case
  proof (cases "?line = []")
    case True
    with Cons.prems have "run_lines rest ?ex1 = (Inr u, ex')"
      by (simp add: run_lines_Cons Let_def del: run_lines.simps)
    from Cons.IH [OF this] True show ?thesis
      by (simp add: run_lines_Cons Let_def tw del: run_lines.simps)
  next
    case False
    obtain r2 ex2 where x: "exec_line ?line ?ex1 = (r2, ex2)" by (cases "exec_line ?line ?ex1")
    with Cons.prems False obtain u2 where r2: "r2 = Inr u2"
      by (cases r2) (auto simp: run_lines_Cons Let_def simp del: run_lines.simps)
    from Cons.prems False x r2 have rec: "run_lines rest ex2 = (Inr u, ex')"
      by (simp add: run_lines_Cons Let_def del: run_lines.simps)
    from Cons.IH [OF rec] exec_line_twin [OF x [unfolded r2], of w k] False show ?thesis
      by (simp add: run_lines_Cons Let_def tw del: run_lines.simps)
  qed
qed

lemma sample_live_run:
  "fst (run_file sample_program (sample_executor False ok_reply))
     = Inr \<lparr>gcode_lines_total = 4, gcode_lines_sent_grbl = 1, dwell_count = 0,
            exposure_on_count = 0, exposure_off_count = 1, image_select_count = 1\<rparr>"
  by code_simp

lemma motion_live_run:
  "fst (run_file [''G1 Z5''] (sample_executor False ok_reply))
     = Inr \<lparr>gcode_lines_total = 1, gcode_lines_sent_grbl = 1, dwell_count = 0,
            exposure_on_count = 0, exposure_off_count = 0, image_select_count = 0\<rparr>"
  by code_simp

lemma motion_dry_run:
  "fst (run_file [''G1 Z5''] (sample_executor True ok_reply))
     = Inr \<lparr>gcode_lines_total = 1, gcode_lines_sent_grbl = 0, dwell_count = 0,
            exposure_on_count = 0, exposure_off_count = 0, image_select_count = 0\<rparr>"
  by code_simp






text \<open>
  C3, as amended. When the live run of a program completes, the dry run of the same program
  from the same session state completes as well, leaves the environment untouched and the
  session state as the live run does, and returns the same counters except the
  forwarded-line counter, which is zero in the dry run and the number of motion lines in
  the live run.
\<close>

theorem dry_run_matches_live_except_sent:
  assumes "\<not> dry_run ex" and "run_file program ex = (Inr st, ex')"
  shows "run_file program (ex\<lparr>dry_run := True\<rparr>)
           = (Inr (st\<lparr>gcode_lines_sent_grbl := 0\<rparr>),
              ex'\<lparr>dry_run := True, env := env ex, stats := st\<lparr>gcode_lines_sent_grbl := 0\<rparr>\<rparr>)
         \<and> gcode_lines_sent_grbl st = count_ops is_motion program"
proof -
  obtain r1 ex1 where r: "run_lines program (run_start ex) = (r1, ex1)"
    by (cases "run_lines program (run_start ex)")
  with assms(2) obtain u where r1: "r1 = Inr u"
    by (cases r1) (simp_all add: run_file_def)
  from assms(2) r r1 have st: "st = stats ex1" and ex': "ex' = ex1"
    by (auto simp: run_file_def)
  have s: "run_start (ex\<lparr>dry_run := True\<rparr>) = dry_twin (run_start ex) (env ex) 0"
    by (simp add: run_start_def dry_twin_def RunStats_new_def)
  from run_lines_twin [OF r [unfolded r1], of "env ex" 0]
  have a: "run_file program (ex\<lparr>dry_run := True\<rparr>)
           = (Inr (st\<lparr>gcode_lines_sent_grbl := 0\<rparr>),
              ex'\<lparr>dry_run := True, env := env ex, stats := st\<lparr>gcode_lines_sent_grbl := 0\<rparr>\<rparr>)"
    by (simp add: run_file_def s st ex' dry_twin_def)
  from run_lines_counts [OF r [unfolded r1]] assms(1)
  have b: "gcode_lines_sent_grbl st = count_ops is_motion program"
    by (simp add: st run_start_def RunStats_new_def)
  from a b show ?thesis by simp
qed

theorem dry_run_matches_live_except_sent_witness:
  "fst (run_file sample_program ((sample_executor False ok_reply)\<lparr>dry_run := True\<rparr>))
     = Inr \<lparr>gcode_lines_total = 4, gcode_lines_sent_grbl = 0, dwell_count = 0,
            exposure_on_count = 0, exposure_off_count = 1, image_select_count = 1\<rparr>
   \<and> env (snd (run_file sample_program ((sample_executor False ok_reply)\<lparr>dry_run := True\<rparr>)))
       = controller_sends ok_reply
   \<and> count_ops is_motion sample_program = 1"
proof -
  define ex where "ex = sample_executor False ok_reply"
  define st where "st = \<lparr>gcode_lines_total = 4, gcode_lines_sent_grbl = 1, dwell_count = 0,
            exposure_on_count = 0, exposure_off_count = 1, image_select_count = (1::int)\<rparr>"
  have d: "\<not> dry_run ex" by (simp add: ex_def sample_executor_def GcodeExecutor_init_def)
  have e: "env ex = controller_sends ok_reply"
    by (simp add: ex_def sample_executor_def GcodeExecutor_init_def)
  have "run_file sample_program ex = (Inr st, snd (run_file sample_program ex))"
    using sample_live_run by (simp add: ex_def st_def prod_eq_iff)
  from dry_run_matches_live_except_sent [OF d this] e
  have "fst (run_file sample_program (ex\<lparr>dry_run := True\<rparr>))
     = Inr \<lparr>gcode_lines_total = 4, gcode_lines_sent_grbl = 0, dwell_count = 0,
            exposure_on_count = 0, exposure_off_count = 1, image_select_count = 1\<rparr>
   \<and> env (snd (run_file sample_program (ex\<lparr>dry_run := True\<rparr>))) = controller_sends ok_reply
   \<and> count_ops is_motion sample_program = 1"
    by (simp add: st_def)
  then show ?thesis unfolding ex_def .
qed

text \<open>
  The claim as stated fails: for the one-line program \<^verbatim>\<open>G1 Z5\<close>, acknowledged by the
  controller, the live run reports one forwarded line and the dry run none.
\<close>

theorem dry_run_sent_counter_differs:
  "fst (run_file [''G1 Z5''] (sample_executor False ok_reply))
     = Inr \<lparr>gcode_lines_total = 1, gcode_lines_sent_grbl = 1, dwell_count = 0,
            exposure_on_count = 0, exposure_off_count = 0, image_select_count = 0\<rparr>
   \<and> fst (run_file [''G1 Z5''] (sample_executor True ok_reply))
     = Inr \<lparr>gcode_lines_total = 1, gcode_lines_sent_grbl = 0, dwell_count = 0,
            exposure_on_count = 0, exposure_off_count = 0, image_select_count = 0\<rparr>"
  by (simp add: motion_live_run motion_dry_run)

end
